theory Spec2Isabelle
  imports Complex_Main
begin

section \<open>microsat.c: from ms output to microsatellite repeat lengths\<close>

text \<open>
  A shallow embedding of \<^verbatim>\<open>src/microsat.c\<close>. Conventions:
  \<^item> a C \<^verbatim>\<open>double\<close> is a \<open>real\<close>: the program only adds doubles from left to right and
    compares them, and the model does the same with exact arithmetic;
  \<^item> a C \<^verbatim>\<open>int\<close> that counts upwards from zero in a loop is a \<open>nat\<close>, the other integers
    are \<open>int\<close>; signed overflow, which C leaves undefined, is modelled for the dataset counter
    only;
  \<^item> standard input is the string of its characters, standard output the string written;
  \<^item> what the program takes from outside its source is a parameter: the generator \<^verbatim>\<open>ran1\<close>
    of \<^verbatim>\<open>rand1.c\<close>, as a function from the generator's hidden state to the value drawn and
    the next state, and \<^verbatim>\<open>atoi\<close>, \<^verbatim>\<open>atof\<close> and the conversion \<^verbatim>\<open>%lf\<close> of the C library;
  \<^item> a run ends by \<^verbatim>\<open>return(0)\<close>, by \<^verbatim>\<open>exit(1)\<close> after a diagnostic, or in behaviour that C
    leaves undefined (a read of a variable never written, a token longer than its buffer).
\<close>

subsection \<open>Mutation engine (\<^verbatim>\<open>main\<close>, lines 186--230)\<close>

type_synonym nrep = "int list list"

text \<open>
  \<^verbatim>\<open>list[ind][i] == '1'\<close>. A row holds the bytes of the buffer \<^verbatim>\<open>list[ind]\<close>: the token that
  \<^verbatim>\<open>fscanf(" %s")\<close> stored, its terminating NUL, and whatever the buffer held behind it.
  Reading at or beyond the end of the buffer is undefined in C; the model answers no.
\<close>

definition hap_is_one :: "string \<Rightarrow> nat \<Rightarrow> bool" where
  "hap_is_one row i = (i < length row \<and> row ! i = CHR ''1'')"

text \<open>
  Lines 209--220: the search for \<^verbatim>\<open>this_str\<close>. The loop leaves through \<^verbatim>\<open>break\<close> with
  \<^verbatim>\<open>this_str = j\<close>, or runs out of loci with \<^verbatim>\<open>this_str\<close> still at the \<^verbatim>\<open>0\<close> of line 209.
\<close>

function str_loop :: "real \<Rightarrow> real list \<Rightarrow> nat \<Rightarrow> nat \<Rightarrow> real \<Rightarrow> nat" where
  "str_loop random thetas linked_n j val =
     (if j < linked_n then
        (let val' = val + thetas ! j
         in if random > val' then str_loop random thetas linked_n (j + 1) val' else j)
      else 0)"
  by pat_completeness auto
termination
  by (relation "measure (\<lambda>(random, thetas, linked_n, j, val). linked_n - j)") auto

declare str_loop.simps [simp del]

text \<open>Lines 223--229: every individual carrying \<^verbatim>\<open>'1'\<close> at site \<open>i\<close> moves by \<open>step\<close>.\<close>

definition add_step :: "string list \<Rightarrow> nat \<Rightarrow> nat \<Rightarrow> int \<Rightarrow> nrep \<Rightarrow> nrep" where
  "add_step list i this_str step nrep =
     map2 (\<lambda>row r. if hap_is_one row i then r[this_str := r ! this_str + step] else r) list nrep"

text \<open>Lines 199--229: the body of the loop over the segregating sites.\<close>

definition site_body ::
  "('g \<Rightarrow> real \<times> 'g) \<Rightarrow> real list \<Rightarrow> nat \<Rightarrow> string list \<Rightarrow> nat \<Rightarrow> nrep \<times> 'g \<Rightarrow> nrep \<times> 'g" where
  "site_body ran1 thetas linked_n list i s =
     (let (nrep, g) = s;
          (d, g1) = ran1 g;
          step = (if d < 0.5 then - 1 else 1);
          (random, g2) = ran1 g1;
          this_str = str_loop random thetas linked_n 0 0
      in (add_step list i this_str step nrep, g2))"

function site_loop ::
  "('g \<Rightarrow> real \<times> 'g) \<Rightarrow> real list \<Rightarrow> nat \<Rightarrow> string list \<Rightarrow> nat \<Rightarrow> nat \<Rightarrow> nrep \<times> 'g \<Rightarrow> nrep \<times> 'g" where
  "site_loop ran1 thetas linked_n list segsites i s =
     (if i < segsites
      then site_loop ran1 thetas linked_n list segsites (i + 1) (site_body ran1 thetas linked_n list i s)
      else s)"
  by pat_completeness auto
termination
  by (relation "measure (\<lambda>(ran1, thetas, linked_n, list, segsites, i, s). segsites - i)") auto

declare site_loop.simps [simp del]

text \<open>Lines 187--193: the matrix starts at the ancestral state.\<close>

definition init_nrep :: "nat \<Rightarrow> nat \<Rightarrow> int \<Rightarrow> nrep" where
  "init_nrep nsam linked_n ancstate = replicate nsam (replicate linked_n ancstate)"

definition mutate ::
  "('g \<Rightarrow> real \<times> 'g) \<Rightarrow> int \<Rightarrow> real list \<Rightarrow> nat \<Rightarrow> string list \<Rightarrow> nat \<Rightarrow> 'g \<Rightarrow> nrep \<times> 'g" where
  "mutate ran1 ancstate thetas linked_n list segsites g =
     site_loop ran1 thetas linked_n list segsites 0 (init_nrep (length list) linked_n ancstate, g)"

subsection \<open>Vocabulary of the specification\<close>


text \<open>The generator after \<open>n\<close> draws, and the value of draw number \<open>k\<close> (from zero).\<close>

definition skip_draws :: "('g \<Rightarrow> real \<times> 'g) \<Rightarrow> nat \<Rightarrow> 'g \<Rightarrow> 'g" where
  "skip_draws ran1 n g = ((\<lambda>h. snd (ran1 h)) ^^ n) g"

definition draw :: "('g \<Rightarrow> real \<times> 'g) \<Rightarrow> 'g \<Rightarrow> nat \<Rightarrow> real" where
  "draw ran1 g k = fst (ran1 (skip_draws ran1 k g))"

text \<open>
  The engine as the specification describes it, over a sequence \<open>d\<close> of draws: site \<open>n\<close>
  takes its direction from draw \<open>2n\<close> and its locus from draw \<open>2n + 1\<close>.
\<close>

fun apply_sites :: "(nat \<Rightarrow> real) \<Rightarrow> real list \<Rightarrow> nat \<Rightarrow> string list \<Rightarrow> nat \<Rightarrow> nrep \<Rightarrow> nrep" where
  "apply_sites d thetas linked_n list 0 nrep = nrep"
| "apply_sites d thetas linked_n list (Suc n) nrep =
     add_step list n (str_loop (d (2 * n + 1)) thetas linked_n 0 0)
       (if d (2 * n) < 0.5 then - 1 else 1)
       (apply_sites d thetas linked_n list n nrep)"

text \<open>An injected draw sequence: a generator that hands out the elements of a list.\<close>

fun draws_ran1 :: "real list \<Rightarrow> real \<times> real list" where
  "draws_ran1 [] = (0, [])"
| "draws_ran1 (x # xs) = (x, xs)"

subsection \<open>Output (\<^verbatim>\<open>main\<close>, lines 232--252)\<close>

text \<open>
  \<^verbatim>\<open>printf("%d", k)\<close>: the decimal digits of \<open>k\<close>, most significant first, after a minus
  sign when \<open>k\<close> is negative (the C library's conversion, written out).
\<close>

function digits :: "nat \<Rightarrow> string" where
  "digits n = (if n < 10 then [''0123456789'' ! n]
               else digits (n div 10) @ [''0123456789'' ! (n mod 10)])"
  by pat_completeness auto
termination
  by (relation "measure (\<lambda>n. n)") auto

declare digits.simps [simp del]

definition print_d :: "int \<Rightarrow> string" where
  "print_d k = (if k < 0 then CHR ''-'' # digits (nat (- k)) else digits (nat k))"

abbreviation tab :: char where "tab \<equiv> CHR 0x09"
abbreviation newline :: char where "newline \<equiv> CHR 0x0A"

text \<open>
  Lines 235--243, the flat layout: loci outside, individuals inside; the last value of the
  last locus ends the line, every other value is followed by a tab.
\<close>

definition print_flat :: "nat \<Rightarrow> nat \<Rightarrow> nrep \<Rightarrow> string" where
  "print_flat nsam linked_n nrep =
     concat (map (\<lambda>a. concat (map (\<lambda>b.
         print_d (nrep ! b ! a) @ (if b = nsam - 1 \<and> a = linked_n - 1 then [newline] else [tab]))
       [0..<nsam])) [0..<linked_n])"

text \<open>
  Lines 245--251, one line per individual: the first \<^verbatim>\<open>linked_n - 1\<close> loci followed by
  tabs, the last locus by a newline, and \<^verbatim>\<open>//\<close> on a line of its own after the individuals.
\<close>

definition print_im :: "nat \<Rightarrow> nat \<Rightarrow> nrep \<Rightarrow> string" where
  "print_im nsam linked_n nrep =
     concat (map (\<lambda>a.
         concat (map (\<lambda>b. print_d (nrep ! a ! b) @ [tab]) [0..<linked_n - 1])
         @ print_d (nrep ! a ! (linked_n - 1)) @ [newline])
       [0..<nsam])
     @ ''//'' @ [newline]"

definition print_dataset :: "int \<Rightarrow> nat \<Rightarrow> nat \<Rightarrow> nrep \<Rightarrow> string" where
  "print_dataset im_flag nsam linked_n nrep =
     (if im_flag = 0 then print_flat nsam linked_n nrep else print_im nsam linked_n nrep)"


definition count_char :: "char \<Rightarrow> string \<Rightarrow> nat" where
  "count_char c s = length (filter (\<lambda>x. x = c) s)"


subsection \<open>Outcomes of a run\<close>

text \<open>
  The diagnostics of the \<^verbatim>\<open>fprintf(stderr, ...)\<close> and \<^verbatim>\<open>perror\<close> calls that precede an
  \<^verbatim>\<open>exit(1)\<close>, and the ways in which a run leaves defined behaviour.
\<close>

datatype diag =
    No_values_after_a
  | No_values_after_l
  | Only_thetas int int
  | Sum_of_thetas real
  | Option_unknown string
  | Line_retrieval_fault

datatype undefined_behaviour =
    Uninitialised_read
  | Buffer_overflow
  | Array_size_not_positive
  | Signed_overflow

text \<open>
  A run ends with \<^verbatim>\<open>return(0)\<close>, with \<^verbatim>\<open>exit(1)\<close> after a diagnostic, or in undefined
  behaviour; each outcome carries what was written to standard output until then.
  Allocation is taken to succeed.
\<close>

datatype outcome =
    Return0 string
  | Exit1 diag string
  | Undefined undefined_behaviour string



subsection \<open>Reading the stream\<close>

abbreviation NUL :: char where "NUL \<equiv> CHR 0x00"

definition MAX_LINE_LENGTH :: nat where
  "MAX_LINE_LENGTH = 1000"

text \<open>
  \<^verbatim>\<open>fgets(line, n, pfin)\<close>: at most \<open>n - 1\<close> characters, up to and including the first
  newline; the null pointer when the stream is at its end. The result is the text stored
  in \<^verbatim>\<open>line\<close> and the unread rest of the stream.
\<close>

fun fgets_chars :: "nat \<Rightarrow> string \<Rightarrow> string \<times> string" where
  "fgets_chars 0 s = ([], s)"
| "fgets_chars (Suc n) [] = ([], [])"
| "fgets_chars (Suc n) (c # s) =
     (if c = newline then ([c], s)
      else (let (l, r) = fgets_chars n s in (c # l, r)))"

definition fgets :: "nat \<Rightarrow> string \<Rightarrow> (string \<times> string) option" where
  "fgets n s = (if s = [] then None else Some (fgets_chars (n - 1) s))"

text \<open>
  The conversions of \<^verbatim>\<open>fscanf\<close> that the program uses, each from the unread stream to what
  it stored (\<open>None\<close> when the conversion failed and the variable keeps its old value) and
  the stream left unread. White space in a format and before \<^verbatim>\<open>%s\<close> and \<^verbatim>\<open>%d\<close> skips any
  white space of the stream.
\<close>

definition isspace :: "char \<Rightarrow> bool" where
  "isspace c = (c \<in> set [CHR '' '', tab, newline, CHR 0x0B, CHR 0x0C, CHR 0x0D])"

definition isdigit :: "char \<Rightarrow> bool" where
  "isdigit c = (c \<in> set ''0123456789'')"

definition skip_ws :: "string \<Rightarrow> string" where
  "skip_ws s = dropWhile isspace s"

definition scan_s :: "string \<Rightarrow> string option \<times> string" where
  "scan_s s =
     (let s' = skip_ws s
      in if s' = [] then (None, [])
         else (Some (takeWhile (\<lambda>c. \<not> isspace c) s'), dropWhile (\<lambda>c. \<not> isspace c) s'))"

definition digit_val :: "char \<Rightarrow> nat" where
  "digit_val c = of_char c - 48"

definition digits_val :: "string \<Rightarrow> nat" where
  "digits_val ds = foldl (\<lambda>v c. 10 * v + digit_val c) 0 ds"

definition scan_d :: "string \<Rightarrow> int option \<times> string" where
  "scan_d s =
     (let s' = skip_ws s;
          neg = (s' \<noteq> [] \<and> hd s' = CHR ''-'');
          s'' = (if s' \<noteq> [] \<and> (hd s' = CHR ''-'' \<or> hd s' = CHR ''+'') then tl s' else s');
          ds = takeWhile isdigit s''
      in if ds = [] then (None, s'')
         else (Some (if neg then - int (digits_val ds) else int (digits_val ds)),
               dropWhile isdigit s''))"

text \<open>The ordinary characters of a format: matched one by one, up to the first mismatch.\<close>

fun match_lit :: "string \<Rightarrow> string \<Rightarrow> bool \<times> string" where
  "match_lit [] s = (True, s)"
| "match_lit (c # cs) [] = (False, [])"
| "match_lit (c # cs) (x # xs) = (if c = x then match_lit cs xs else (False, x # xs))"

text \<open>Line 155: \<^verbatim>\<open>fscanf(pfin, "  segsites: %d", &segsites)\<close>.\<close>

definition scan_segsites :: "string \<Rightarrow> int option \<times> string" where
  "scan_segsites s =
     (case match_lit ''segsites:'' (skip_ws s) of
        (False, r) \<Rightarrow> (None, r)
      | (True, r) \<Rightarrow> scan_d r)"

text \<open>
  Lines 147--152: \<^verbatim>\<open>do { fgets } while (line[0] != '/')\<close>. \<open>None\<close> stands for the
  \<^verbatim>\<open>exit(1)\<close> taken when \<^verbatim>\<open>fgets\<close> returns the null pointer.
\<close>

function find_boundary :: "string \<Rightarrow> string option" where
  "find_boundary s =
     (case fgets MAX_LINE_LENGTH s of
        None \<Rightarrow> None
      | Some (line, r) \<Rightarrow> if hd line \<noteq> CHR ''/'' then find_boundary r else Some r)"
  by pat_completeness auto
termination
proof (relation "measure length")
  show "wf (measure length)" by simp
next
  fix s :: string and x2 line r
  assume a: "fgets MAX_LINE_LENGTH s = Some x2" "(line, r) = x2"
  have le: "length (snd (fgets_chars m u)) \<le> length u" for m u
    by (induction m u rule: fgets_chars.induct) (auto split: prod.splits)
  have shrink: "length (snd (fgets_chars (Suc m) (c # t))) < length (c # t)" for m c t
    using le [of m t] by (auto split: prod.splits)
  from a obtain c t where s: "s = c # t"
    by (cases s) (auto simp: fgets_def)
  from a have "fgets_chars (Suc 998) s = (line, r)"
    by (simp add: fgets_def MAX_LINE_LENGTH_def s del: fgets_chars.simps)
  then have "r = snd (fgets_chars (Suc 998) (c # t))"
    by (simp add: s del: fgets_chars.simps)
  with shrink [of 998 c t] show "(r, s) \<in> measure length"
    by (simp add: s del: fgets_chars.simps)
qed

declare find_boundary.simps [simp del]

subsection \<open>Command line (\<^verbatim>\<open>main\<close>, lines 55--57 and 68--132)\<close>

text \<open>
  \<^verbatim>\<open>atoi\<close> and \<^verbatim>\<open>atof\<close> belong to the C library and are parameters. The array \<^verbatim>\<open>thetas\<close>
  has \<^verbatim>\<open>MAX_STRS\<close> entries; its initial contents are indeterminate in C, and no entry is
  read before it is written. A command line with more than \<^verbatim>\<open>MAX_STRS\<close> loci writes beyond
  the array, which is undefined in C; the model drops such a write.
\<close>

definition MAX_STRS :: nat where
  "MAX_STRS = 1000"

definition TOLERANCE :: real where
  "TOLERANCE = 0.00000000000001"

record config =
  ancstate :: int
  linked_n :: int
  im_flag :: int
  thetas :: "real list"
  theta_sum :: real

definition init_config :: config where
  "init_config =
     \<lparr>ancstate = 0, linked_n = 1, im_flag = 0, thetas = replicate MAX_STRS 0, theta_sum = 0\<rparr>"

text \<open>\<^verbatim>\<open>argv[k]\<close> for \<open>k \<le> argc\<close>; \<^verbatim>\<open>argv[argc]\<close> is the null pointer.\<close>

definition argv_at :: "string list \<Rightarrow> nat \<Rightarrow> string option" where
  "argv_at argv k = (if k < length argv then Some (argv ! k) else None)"

text \<open>Lines 101--112: one theta proportion per locus, summed as they are read.\<close>

function thetas_loop ::
  "(string \<Rightarrow> real) \<Rightarrow> string list \<Rightarrow> int \<Rightarrow> nat \<Rightarrow> config \<Rightarrow> diag + nat \<times> config" where
  "thetas_loop atof argv j flag_c cfg =
     (if j < linked_n cfg then
        (case argv_at argv (flag_c + 1) of
           None \<Rightarrow> Inl (Only_thetas j (linked_n cfg))
         | Some a \<Rightarrow>
             thetas_loop atof argv (j + 1) (flag_c + 1)
               (cfg\<lparr>thetas := (thetas cfg)[nat j := atof a],
                    theta_sum := theta_sum cfg + atof a\<rparr>))
      else Inr (flag_c, cfg))"
  by pat_completeness auto
termination
  by (relation "measure (\<lambda>(atof, argv, j, flag_c, cfg). nat (linked_n cfg - j))") auto

declare thetas_loop.simps [simp del]

text \<open>Lines 89--118: the option \<^verbatim>\<open>-l\<close>.\<close>

definition option_l ::
  "(string \<Rightarrow> int) \<Rightarrow> (string \<Rightarrow> real) \<Rightarrow> string list \<Rightarrow> nat \<Rightarrow> config \<Rightarrow> diag + nat \<times> config" where
  "option_l atoi atof argv flag_c cfg =
     (case argv_at argv (flag_c + 1) of
        None \<Rightarrow> Inl No_values_after_l
      | Some a \<Rightarrow>
          (let cfg1 = cfg\<lparr>linked_n := atoi a\<rparr>
           in if linked_n cfg1 \<noteq> 1 then
                (case thetas_loop atof argv 0 (flag_c + 1) cfg1 of
                   Inl e \<Rightarrow> Inl e
                 | Inr (fc, cfg2) \<Rightarrow>
                     if 1 - theta_sum cfg2 > TOLERANCE \<or> theta_sum cfg2 - 1 > TOLERANCE
                     then Inl (Sum_of_thetas (theta_sum cfg2))
                     else Inr (fc, cfg2))
              else Inr (flag_c + 1, cfg1)))"

text \<open>
  Lines 69--126: the loop over the arguments. An argument that does not start with \<^verbatim>\<open>-\<close>
  is skipped together with the argument after it (line 125 and the loop's own increment).
\<close>

function args_loop ::
  "(string \<Rightarrow> int) \<Rightarrow> (string \<Rightarrow> real) \<Rightarrow> string list \<Rightarrow> nat \<Rightarrow> config \<Rightarrow> diag + config" where
  "args_loop atoi atof argv flag_c cfg =
     (if flag_c < length argv then
        (let a = argv ! flag_c;
             c0 = (if a = [] then NUL else a ! 0);
             c1 = (if length a \<le> 1 then NUL else a ! 1)
         in if c0 = CHR ''-'' then
              (if c1 = CHR ''a'' then
                 (case argv_at argv (flag_c + 1) of
                    None \<Rightarrow> Inl No_values_after_a
                  | Some v \<Rightarrow> args_loop atoi atof argv (flag_c + 2) (cfg\<lparr>ancstate := atoi v\<rparr>))
               else if c1 = CHR ''i'' then
                 args_loop atoi atof argv (flag_c + 1) (cfg\<lparr>im_flag := 1\<rparr>)
               else if c1 = CHR ''l'' then
                 (case option_l atoi atof argv flag_c cfg of
                    Inl e \<Rightarrow> Inl e
                  | Inr (fc, cfg') \<Rightarrow> args_loop atoi atof argv (fc + 1) cfg')
               else Inl (Option_unknown a))
            else args_loop atoi atof argv (flag_c + 2) cfg)
      else Inr cfg)"
  by pat_completeness auto
termination
proof (relation "measure (\<lambda>(atoi, atof, argv, flag_c, cfg). length argv - flag_c)")
  fix atoi :: "string \<Rightarrow> int" and atof :: "string \<Rightarrow> real"
    and argv :: "string list" and flag_c :: nat and cfg cfg' :: config and fc :: nat
    and x xa xb x2
  assume lt: "flag_c < length argv"
    and ok: "option_l atoi atof argv flag_c cfg = Inr x2" "(fc, cfg') = x2"
  have mono: "thetas_loop f av j k c = Inr (k', c') \<Longrightarrow> k \<le> k'" for f av j k c k' c'
  proof (induction f av j k c rule: thetas_loop.induct)
    case (1 f av j k c)
    show ?case
    proof (cases "j < linked_n c")
      case True
      with "1.prems" obtain a where a: "argv_at av (k + 1) = Some a"
        by (subst (asm) thetas_loop.simps) (auto split: option.splits)
      with True "1.prems" have "thetas_loop f av (j + 1) (k + 1)
            (c\<lparr>thetas := (thetas c)[nat j := f a], theta_sum := theta_sum c + f a\<rparr>) = Inr (k', c')"
        by (subst (asm) thetas_loop.simps) simp
      from "1.IH" [OF True a this] show ?thesis by simp
    next
      case False
      with "1.prems" show ?thesis by (subst (asm) thetas_loop.simps) simp
    qed
  qed
  from ok have "flag_c < fc"
    by (auto simp: option_l_def Let_def split: option.splits if_splits sum.splits dest!: mono)
  with lt show "((atoi, atof, argv, fc + 1, cfg'), atoi, atof, argv, flag_c, cfg)
      \<in> measure (\<lambda>(atoi, atof, argv, flag_c, cfg). length argv - flag_c)"
    by simp
qed auto

declare args_loop.simps [simp del]

text \<open>Lines 68--132: the arguments, then the default \<^verbatim>\<open>thetas[0] = 1.0\<close> for a single locus.\<close>

definition configure :: "(string \<Rightarrow> int) \<Rightarrow> (string \<Rightarrow> real) \<Rightarrow> string list \<Rightarrow> diag + config" where
  "configure atoi atof argv =
     (case args_loop atoi atof argv 1 init_config of
        Inl e \<Rightarrow> Inl e
      | Inr cfg \<Rightarrow> Inr (if linked_n cfg = 1 then cfg\<lparr>thetas := (thetas cfg)[0 := 1.0]\<rparr> else cfg))"

subsection \<open>Memory (lines 46, 135--140, 158--166 and 260--290)\<close>

text \<open>
  What the run needs of the C library and of the machine: \<^verbatim>\<open>atoi\<close>, \<^verbatim>\<open>atof\<close>, the
  generator \<^verbatim>\<open>ran1\<close>, the stream left unread by \<^verbatim>\<open>fscanf(pfin, " %lf", ...)\<close> (the number
  read is stored and never used), and the indeterminate contents of fresh memory (row and
  offset).
\<close>

record 'g env =
  atoi :: "string \<Rightarrow> int"
  atof :: "string \<Rightarrow> real"
  ran1 :: "'g \<Rightarrow> real \<times> 'g"
  scan_lf :: "string \<Rightarrow> string"
  fresh :: "nat \<Rightarrow> nat \<Rightarrow> char"

text \<open>
  The variables of \<^verbatim>\<open>main\<close> that live across datasets, with the unread input and the
  output written so far. \<^verbatim>\<open>list\<close> holds the bytes of the \<^verbatim>\<open>nsam\<close> buffers, so that the
  capacity of a buffer is its length; \<^verbatim>\<open>posit_size\<close> is the number of doubles allocated for
  \<^verbatim>\<open>posit\<close>. \<^verbatim>\<open>segsites\<close> and \<^verbatim>\<open>astr\<close> are uninitialised (\<open>None\<close>) until first stored.
\<close>

record 'g state =
  inp :: string
  out :: string
  MAX_SITES :: int
  posit_size :: int
  list :: "string list"
  segsites :: "int option"
  astr :: "string option"
  gen :: 'g

text \<open>Lines 261--276: \<^verbatim>\<open>nsam\<close> buffers of \<^verbatim>\<open>len\<close> bytes each.\<close>

definition cmatrix :: "(nat \<Rightarrow> nat \<Rightarrow> char) \<Rightarrow> nat \<Rightarrow> nat \<Rightarrow> string list" where
  "cmatrix fr nsam len = map (\<lambda>i. map (fr i) [0..<len]) [0..<nsam]"

text \<open>
  Lines 279--290: \<^verbatim>\<open>biggerlist\<close> reallocates every buffer to \<^verbatim>\<open>nmax\<close> bytes. The program
  never calls it: line 165, inside the block that grows \<^verbatim>\<open>posit\<close>, repeats its prototype.
\<close>

definition realloc :: "(nat \<Rightarrow> char) \<Rightarrow> string \<Rightarrow> nat \<Rightarrow> string" where
  "realloc fr buf n = take n buf @ map fr [length buf..<n]"

definition biggerlist :: "(nat \<Rightarrow> nat \<Rightarrow> char) \<Rightarrow> nat \<Rightarrow> nat \<Rightarrow> 'g state \<Rightarrow> 'g state" where
  "biggerlist fr nsam nmax st =
     st\<lparr>MAX_SITES := int nmax,
        list := map (\<lambda>i. if i < nsam then realloc (fr i) (list st ! i) nmax else list st ! i)
                  [0..<length (list st)]\<rparr>"

text \<open>Lines 158--166: the growth step taken for a dataset of \<open>s\<close> segregating sites.\<close>

definition grow :: "int \<Rightarrow> 'g state \<Rightarrow> 'g state" where
  "grow s st = (if s \<ge> MAX_SITES st then st\<lparr>MAX_SITES := s + 10, posit_size := s + 10\<rparr> else st)"

subsection \<open>One dataset (lines 146--252)\<close>

text \<open>\<^verbatim>\<open>fscanf(pfin, " %s", buf)\<close> stores the token and a terminating NUL at the start of \<open>buf\<close>.\<close>

definition store_token :: "string \<Rightarrow> string \<Rightarrow> string" where
  "store_token buf tok = tok @ [NUL] @ drop (length tok + 1) buf"

text \<open>Line 172: the token after the count, into \<^verbatim>\<open>char astr[100]\<close>.\<close>

definition read_astr :: "'g state \<Rightarrow> undefined_behaviour + 'g state" where
  "read_astr st =
     (case scan_s (inp st) of
        (None, r) \<Rightarrow> Inr (st\<lparr>inp := r\<rparr>)
      | (Some tok, r) \<Rightarrow>
          if length tok \<ge> 100 then Inl Buffer_overflow
          else Inr (st\<lparr>inp := r, astr := Some tok\<rparr>))"

text \<open>Lines 175--178: a token whose second character is \<^verbatim>\<open>r\<close> is followed by a number and a token.\<close>

definition skip_annotation :: "(string \<Rightarrow> string) \<Rightarrow> 'g state \<Rightarrow> undefined_behaviour + 'g state" where
  "skip_annotation lf st =
     (case astr st of
        None \<Rightarrow> Inl Uninitialised_read
      | Some a \<Rightarrow>
          if length a > 1 \<and> a ! 1 = CHR ''r''
          then Inr (st\<lparr>inp := snd (scan_s (lf (inp st)))\<rparr>)
          else Inr st)"

text \<open>
  Line 182: one token per buffer. A token longer than the buffer allows overflows it; at
  the end of the stream a buffer keeps its bytes.
\<close>

fun read_haps :: "string list \<Rightarrow> string \<Rightarrow> (string list \<times> string) option" where
  "read_haps [] r = Some ([], r)"
| "read_haps (buf # bufs) r =
     (case scan_s r of
        (None, r') \<Rightarrow> map_option (\<lambda>(bs, r''). (buf # bs, r'')) (read_haps bufs r')
      | (Some tok, r') \<Rightarrow>
          if length tok + 1 > length buf then None
          else map_option (\<lambda>(bs, r''). (store_token buf tok # bs, r'')) (read_haps bufs r'))"

text \<open>Lines 169--183.\<close>

definition read_sample :: "(string \<Rightarrow> string) \<Rightarrow> int \<Rightarrow> 'g state \<Rightarrow> undefined_behaviour + 'g state" where
  "read_sample lf segs st =
     (if segs > 0 then
        (case read_astr st of
           Inl u \<Rightarrow> Inl u
         | Inr st1 \<Rightarrow>
             (case skip_annotation lf st1 of
                Inl u \<Rightarrow> Inl u
              | Inr st2 \<Rightarrow>
                  (case read_haps (list st2) ((lf ^^ nat segs) (inp st2)) of
                     None \<Rightarrow> Inl Buffer_overflow
                   | Some (bufs, r) \<Rightarrow> Inr (st2\<lparr>inp := r, list := bufs\<rparr>))))
      else Inr st)"

text \<open>
  The body of the loop over the datasets. The matrix \<^verbatim>\<open>nrep[nsam][linked_n]\<close> of line 187 is
  a variable-length array, whose sizes must be positive.
\<close>

definition dataset :: "'g env \<Rightarrow> config \<Rightarrow> 'g state \<Rightarrow> outcome + 'g state" where
  "dataset env cfg st =
     (case find_boundary (inp st) of
        None \<Rightarrow> Inl (Exit1 Line_retrieval_fault (out st))
      | Some r \<Rightarrow>
          (case scan_segsites r of
             (v, r') \<Rightarrow>
               (case (case v of None \<Rightarrow> segsites st | Some k \<Rightarrow> Some k) of
                  None \<Rightarrow> Inl (Undefined Uninitialised_read (out st))
                | Some segs \<Rightarrow>
                    (case read_sample (scan_lf env) segs
                            (grow segs (st\<lparr>inp := r', segsites := Some segs\<rparr>)) of
                       Inl u \<Rightarrow> Inl (Undefined u (out st))
                     | Inr st2 \<Rightarrow>
                         if length (list st2) = 0 \<or> linked_n cfg \<le> 0
                         then Inl (Undefined Array_size_not_positive (out st))
                         else
                           (case mutate (ran1 env) (ancstate cfg) (thetas cfg) (nat (linked_n cfg))
                                   (list st2) (nat segs) (gen st2) of
                              (nrep, g') \<Rightarrow>
                                Inr (st2\<lparr>gen := g',
                                         out := out st2 @ print_dataset (im_flag cfg)
                                           (length (list st2)) (nat (linked_n cfg)) nrep\<rparr>))))))"

subsection \<open>The run (lines 61--65, 134--144 and 254--256)\<close>

text \<open>
  \<^verbatim>\<open>while( ms_datasets - count++ )\<close>: the loop ends when \<^verbatim>\<open>count\<close> reaches \<^verbatim>\<open>ms_datasets\<close>;
  incrementing an \<^verbatim>\<open>int\<close> beyond its largest value is undefined.
\<close>

function run :: "'g env \<Rightarrow> config \<Rightarrow> int \<Rightarrow> int \<Rightarrow> 'g state \<Rightarrow> outcome" where
  "run env cfg ms_datasets count st =
     (if count \<ge> 2147483647 then Undefined Signed_overflow (out st)
      else if ms_datasets - count = 0 then Return0 (out st)
      else (case dataset env cfg st of
              Inl oc \<Rightarrow> oc
            | Inr st' \<Rightarrow> run env cfg ms_datasets (count + 1) st'))"
  by pat_completeness auto
termination
  by (relation "measure (\<lambda>(env, cfg, ms_datasets, count, st). nat (2147483647 - count))") auto

declare run.simps [simp del]

text \<open>
  Line 64: \<^verbatim>\<open>sscanf(line, " %s  %d %d", dummy, &nsam, &ms_datasets)\<close> with \<^verbatim>\<open>char dummy[20]\<close>;
  a variable that is not reached keeps its indeterminate value (\<open>None\<close>).
\<close>

definition header :: "string \<Rightarrow> undefined_behaviour + int option \<times> int option" where
  "header line =
     (case scan_s line of
        (None, r) \<Rightarrow> Inr (None, None)
      | (Some tok, r) \<Rightarrow>
          if length tok \<ge> 20 then Inl Buffer_overflow
          else (case scan_d r of
                  (None, r') \<Rightarrow> Inr (None, None)
                | (Some n, r') \<Rightarrow> Inr (Some n, fst (scan_d r'))))"

text \<open>
  \<^verbatim>\<open>main\<close>: the two leading lines, the command line, the allocations, the datasets. When
  the stream is empty, \<^verbatim>\<open>line\<close> is read by \<^verbatim>\<open>sscanf\<close> without having been written.
\<close>

definition main :: "'g env \<Rightarrow> string list \<Rightarrow> string \<Rightarrow> 'g \<Rightarrow> outcome" where
  "main env argv stdin g =
     (case fgets MAX_LINE_LENGTH stdin of
        None \<Rightarrow> Undefined Uninitialised_read []
      | Some (line, r1) \<Rightarrow>
          (case header line of
             Inl u \<Rightarrow> Undefined u []
           | Inr (nsam, ms_datasets) \<Rightarrow>
               (case configure (atoi env) (atof env) argv of
                  Inl d \<Rightarrow> Exit1 d []
                | Inr cfg \<Rightarrow>
                    (case (nsam, ms_datasets) of
                       (Some n, Some d) \<Rightarrow>
                         run env cfg d 0
                           \<lparr>inp = (case fgets MAX_LINE_LENGTH r1 of None \<Rightarrow> r1 | Some (l2, r2) \<Rightarrow> r2),
                            out = [], MAX_SITES = 1000, posit_size = 1000,
                            list = cmatrix (fresh env) (nat n) 1001,
                            segsites = None, astr = None, gen = g\<rparr>
                     | _ \<Rightarrow> Undefined Uninitialised_read []))))"

subsection \<open>An environment for examples\<close>

text \<open>
  Unsigned decimal readings of \<^verbatim>\<open>atoi\<close>, \<^verbatim>\<open>atof\<close> and \<^verbatim>\<open>%lf\<close>, the generator that hands out
  a list of draws, and fresh memory filled with NUL.
\<close>

definition decimal_atoi :: "string \<Rightarrow> int" where
  "decimal_atoi s = (case fst (scan_d s) of None \<Rightarrow> 0 | Some k \<Rightarrow> k)"

definition decimal_atof :: "string \<Rightarrow> real" where
  "decimal_atof s =
     (let ip = takeWhile isdigit s;
          r = dropWhile isdigit s;
          fp = (if r \<noteq> [] \<and> hd r = CHR ''.'' then takeWhile isdigit (tl r) else [])
      in real (digits_val ip) + real (digits_val fp) / 10 ^ length fp)"

definition decimal_scan_lf :: "string \<Rightarrow> string" where
  "decimal_scan_lf s = dropWhile (\<lambda>c. isdigit c \<or> c = CHR ''.'') (skip_ws s)"

definition example_env :: "(real list) env" where
  "example_env =
     \<lparr>atoi = decimal_atoi, atof = decimal_atof, ran1 = draws_ran1,
      scan_lf = decimal_scan_lf, fresh = (\<lambda>i k. NUL)\<rparr>"

subsection \<open>The stream as \<^verbatim>\<open>fgets\<close> delivers it\<close>

text \<open>
  The successive results of \<^verbatim>\<open>fgets(line, MAX_LINE_LENGTH, pfin)\<close> until the end of the
  stream: its lines, a line of more than 999 characters arriving in several pieces.
\<close>

function fgets_all :: "string \<Rightarrow> string list" where
  "fgets_all s =
     (case fgets MAX_LINE_LENGTH s of
        None \<Rightarrow> []
      | Some (line, r) \<Rightarrow> line # fgets_all r)"
  by pat_completeness auto
termination
proof (relation "measure length")
  show "wf (measure length)" by simp
next
  fix s :: string and x2 line r
  assume a: "fgets MAX_LINE_LENGTH s = Some x2" "(line, r) = x2"
  have le: "length (snd (fgets_chars m u)) \<le> length u" for m u
    by (induction m u rule: fgets_chars.induct) (auto split: prod.splits)
  have shrink: "length (snd (fgets_chars (Suc m) (c # t))) < length (c # t)" for m c t
    using le [of m t] by (auto split: prod.splits)
  from a obtain c t where s: "s = c # t"
    by (cases s) (auto simp: fgets_def)
  from a have "fgets_chars (Suc 998) s = (line, r)"
    by (simp add: fgets_def MAX_LINE_LENGTH_def s del: fgets_chars.simps)
  then have "r = snd (fgets_chars (Suc 998) (c # t))"
    by (simp add: s del: fgets_chars.simps)
  with shrink [of 998 c t] show "(r, s) \<in> measure length"
    by (simp add: s del: fgets_chars.simps)
qed

declare fgets_all.simps [simp del]

subsection \<open>The theta proportions of a command line\<close>

text \<open>The array after the values of \<open>ts\<close> have been stored from index \<open>j\<close> on.\<close>

fun store_all :: "(string \<Rightarrow> real) \<Rightarrow> nat \<Rightarrow> string list \<Rightarrow> real list \<Rightarrow> real list" where
  "store_all af j [] th = th"
| "store_all af j (t # ts) th = store_all af (Suc j) ts (th[j := af t])"

section \<open>Properties\<close>

subsection \<open>The locus search\<close>



lemma skip_draws_Suc: "skip_draws rnd (Suc n) g = snd (rnd (skip_draws rnd n g))"
  by (simp add: skip_draws_def)

lemma site_body_draws:
  "site_body rnd ths L rows i (nrep, skip_draws rnd (2 * i) g) =
     (add_step rows i (str_loop (draw rnd g (2 * i + 1)) ths L 0 0)
        (if draw rnd g (2 * i) < 0.5 then - 1 else 1) nrep,
      skip_draws rnd (2 * Suc i) g)"
  by (simp add: site_body_def draw_def skip_draws_Suc split: prod.splits)

lemma site_loop_draws:
  "i \<le> S \<Longrightarrow>
   site_loop rnd ths L rows S i
     (apply_sites (draw rnd g) ths L rows i nrep0, skip_draws rnd (2 * i) g) =
   (apply_sites (draw rnd g) ths L rows S nrep0, skip_draws rnd (2 * S) g)"
proof (induction "S - i" arbitrary: i)
  case 0
  then have "i = S" by simp
  then show ?case by (subst site_loop.simps) simp
next
  case (Suc n)
  then have lt: "i < S" by simp
  have "site_loop rnd ths L rows S (Suc i)
     (apply_sites (draw rnd g) ths L rows (Suc i) nrep0, skip_draws rnd (2 * Suc i) g) =
   (apply_sites (draw rnd g) ths L rows S nrep0, skip_draws rnd (2 * S) g)"
    using Suc by (intro Suc.hyps(1)) auto
  with lt show ?case
    by (subst site_loop.simps) (simp add: site_body_draws)
qed

lemma mutate_draws:
  "mutate rnd anc ths L rows S g =
     (apply_sites (draw rnd g) ths L rows S (init_nrep (length rows) L anc),
      skip_draws rnd (2 * S) g)"
  using site_loop_draws [of 0 S rnd ths L rows g "init_nrep (length rows) L anc"]
  by (simp add: mutate_def skip_draws_def)

lemma apply_sites_cong:
  "(\<forall>k<2 * n. d k = d' k) \<Longrightarrow>
   apply_sites d ths L rows n nrep = apply_sites d' ths L rows n nrep"
  by (induction n) simp_all


lemma str_loop_single [simp]: "str_loop random ths (Suc 0) 0 0 = 0"
proof -
  have "str_loop random ths (Suc 0) (Suc 0) v = 0" for v
    by (subst str_loop.simps) simp
  then show ?thesis
    by (subst str_loop.simps) (simp add: Let_def)
qed

subsection \<open>Claims about the mutation engine\<close>






text \<open>
  Claim C6. A dataset without segregating sites leaves every length of every individual at
  every locus at the ancestral state, for every ancestral state, sample and locus count
  (and draws nothing from the generator).
\<close>

theorem no_sites_ancestral:
  "mutate rnd anc ths nloc rows 0 g =
     (replicate (length rows) (replicate nloc anc), g)"
  by (simp add: mutate_def init_nrep_def site_loop.simps)

text \<open>
  Claim C4. The engine draws exactly two values per segregating site (the generator ends
  \<open>2 * segsites\<close> draws further), site \<open>n\<close> uses draw \<open>2n\<close> for its direction and draw
  \<open>2n + 1\<close> for its locus, and two runs over the same haplotypes whose generators hand out
  the same first \<open>2 * segsites\<close> values produce the same repeat lengths.
\<close>

theorem two_draws_per_site:
  "snd (mutate rnd anc ths nloc rows nsites g) = skip_draws rnd (2 * nsites) g
   \<and> fst (mutate rnd anc ths nloc rows nsites g) =
       apply_sites (draw rnd g) ths nloc rows nsites
         (init_nrep (length rows) nloc anc)
   \<and> (map (draw rnd g) [0..<2 * nsites] = map (draw rnd' g') [0..<2 * nsites]
      \<longrightarrow> fst (mutate rnd anc ths nloc rows nsites g) =
          fst (mutate rnd' anc ths nloc rows nsites g'))"
proof -
  have "fst (mutate rnd anc ths nloc rows nsites g) =
          fst (mutate rnd' anc ths nloc rows nsites g')"
    if eq: "map (draw rnd g) [0..<2 * nsites] = map (draw rnd' g') [0..<2 * nsites]"
  proof -
    have "\<forall>k<2 * nsites. draw rnd g k = draw rnd' g' k"
      using eq by (simp add: list_eq_iff_nth_eq)
    then show ?thesis
      by (simp add: mutate_draws apply_sites_cong)
  qed
  then show ?thesis by (simp add: mutate_draws)
qed

theorem two_draws_per_site_witness:
  "map (draw draws_ran1 [3 / 4, 3 / 10, 1 / 4, 9 / 10, 1 / 10]) [0..<2 * 2] =
     map (draw draws_ran1 [3 / 4, 3 / 10, 1 / 4, 9 / 10, 7 / 10, 1 / 5]) [0..<2 * 2]
   \<and> fst (mutate draws_ran1 20 [1] 1 [''10'', ''01'', ''11''] 2 [3 / 4, 3 / 10, 1 / 4, 9 / 10, 1 / 10]) =
     fst (mutate draws_ran1 20 [1] 1 [''10'', ''01'', ''11''] 2 [3 / 4, 3 / 10, 1 / 4, 9 / 10, 7 / 10, 1 / 5])
   \<and> snd (mutate draws_ran1 20 [1] 1 [''10'', ''01'', ''11''] 2 [3 / 4, 3 / 10, 1 / 4, 9 / 10, 1 / 10]) = [1 / 10]"
proof -
  have h: "map (draw draws_ran1 [3 / 4, 3 / 10, 1 / 4, 9 / 10, 1 / 10]) [0..<2 * 2] =
     map (draw draws_ran1 [3 / 4, 3 / 10, 1 / 4, 9 / 10, 7 / 10, 1 / 5]) [0..<2 * 2]"
    by (simp add: draw_def skip_draws_def upt_rec numeral_eq_Suc)
  have s: "skip_draws draws_ran1 (2 * 2) [3 / 4, 3 / 10, 1 / 4, 9 / 10, 1 / 10] = [1 / 10 :: real]"
    by (simp add: skip_draws_def numeral_eq_Suc)
  note t = two_draws_per_site [of draws_ran1 20 "[1]" 1 "[''10'', ''01'', ''11'']" 2
      "[3 / 4, 3 / 10, 1 / 4, 9 / 10, 1 / 10]" draws_ran1 "[3 / 4, 3 / 10, 1 / 4, 9 / 10, 7 / 10, 1 / 5]"]
  have a: "snd (mutate draws_ran1 20 [1] 1 [''10'', ''01'', ''11''] 2 [3 / 4, 3 / 10, 1 / 4, 9 / 10, 1 / 10]) = [1 / 10]"
    using t [THEN conjunct1] s by simp
  have c: "fst (mutate draws_ran1 20 [1] 1 [''10'', ''01'', ''11''] 2 [3 / 4, 3 / 10, 1 / 4, 9 / 10, 1 / 10]) =
     fst (mutate draws_ran1 20 [1] 1 [''10'', ''01'', ''11''] 2 [3 / 4, 3 / 10, 1 / 4, 9 / 10, 7 / 10, 1 / 5])"
    by (rule t [THEN conjunct2, THEN conjunct2, THEN mp, OF h])
  show ?thesis by (intro conjI h a c)
qed


subsection \<open>The output layouts\<close>

lemma digits_chars: "set (digits n) \<subseteq> set ''0123456789''"
proof (induction n rule: digits.induct)
  case (1 n)
  have m: "''0123456789'' ! (n mod 10) \<in> set ''0123456789''"
    by (rule nth_mem) simp
  show ?case
  proof (cases "n < 10")
    case True
    then have "''0123456789'' ! n \<in> set ''0123456789''" by (intro nth_mem) simp
    with True show ?thesis by (subst digits.simps) simp
  next
    case False
    with 1 m show ?thesis by (subst digits.simps) simp
  qed
qed


lemma digits_no_sep: "tab \<notin> set (digits n) \<and> newline \<notin> set (digits n)"
proof -
  have "tab \<notin> set ''0123456789''" "newline \<notin> set ''0123456789''" by simp_all
  with digits_chars [of n] show ?thesis by blast
qed

lemma print_d_no_sep: "tab \<notin> set (print_d k) \<and> newline \<notin> set (print_d k)"
  using digits_no_sep [of "nat k"] digits_no_sep [of "nat (- k)"]
  by (simp add: print_d_def)

lemma count_char_append [simp]: "count_char c (xs @ ys) = count_char c xs + count_char c ys"
  by (simp add: count_char_def)

lemma count_char_Cons [simp]: "count_char c (x # xs) = (if x = c then 1 else 0) + count_char c xs"
  by (simp add: count_char_def)

lemma count_char_Nil [simp]: "count_char c [] = 0"
  by (simp add: count_char_def)

lemma count_char_notin: "c \<notin> set s \<Longrightarrow> count_char c s = 0"
  by (induction s) auto

lemma count_char_print_d [simp]:
  "count_char tab (print_d k) = 0" "count_char newline (print_d k) = 0"
  using print_d_no_sep [of k] by (simp_all add: count_char_notin)








subsection \<open>Claims about the output\<close>



text \<open>
  Claim C3, as amended. For three individuals with the rows \<^verbatim>\<open>10\<close>, \<^verbatim>\<open>01\<close>, \<^verbatim>\<open>11\<close>, two
  sites, ancestral state 20 and one locus, whenever the direction draw of site 0 gives the
  step \<open>+1\<close> and that of site 1 the step \<open>-1\<close>, the flat line is \<^verbatim>\<open>21\t19\t20\<close>: the third
  individual carries both mutations and ends at 20.
\<close>

theorem example_flat_line:
  assumes "1 / 2 \<le> draw rnd g 0" and "draw rnd g 2 < 1 / 2"
  shows "print_dataset 0 3 1 (fst (mutate rnd 20 [1] 1 [''10'', ''01'', ''11''] 2 g)) =
           ''21'' @ [tab] @ ''19'' @ [tab] @ ''20'' @ [newline]"
proof -
  have "fst (mutate rnd 20 [1] 1 [''10'', ''01'', ''11''] 2 g) = [[21], [19], [20]]"
    using assms
    by (simp add: mutate_draws numeral_2_eq_2 add_step_def hap_is_one_def
        init_nrep_def numeral_3_eq_3)
  then show ?thesis
    by (simp add: print_dataset_def print_flat_def print_d_def digits.simps upt_rec)
qed

theorem example_flat_line_witness:
  "print_dataset 0 3 1
     (fst (mutate draws_ran1 20 [1] 1 [''10'', ''01'', ''11''] 2 [3 / 4, 3 / 10, 1 / 4, 9 / 10])) =
   ''21'' @ [tab] @ ''19'' @ [tab] @ ''20'' @ [newline]"
  by (rule example_flat_line) (simp_all add: draw_def skip_draws_def numeral_2_eq_2)

text \<open>
  The line \<^verbatim>\<open>21\t19\t19\<close> of the claim as stated is not what is printed: the run on the
  stream of the example returns 0 after printing \<^verbatim>\<open>21\t19\t20\<close>.
\<close>

theorem example_flat_line_counterexample:
  "main example_env [''microsat'', ''-a'', ''20'']
     (''ms 3 1'' @ [newline] @ ''1 2 3'' @ [newline] @ [newline] @ ''//'' @ [newline]
      @ ''segsites: 2'' @ [newline] @ ''positions: 0.1 0.2'' @ [newline]
      @ ''10'' @ [newline] @ ''01'' @ [newline] @ ''11'' @ [newline])
     [3 / 4, 3 / 10, 1 / 4, 9 / 10] =
   Return0 (''21'' @ [tab] @ ''19'' @ [tab] @ ''20'' @ [newline])
   \<and> print_dataset 0 3 1
     (fst (mutate draws_ran1 20 [1] 1 [''10'', ''01'', ''11''] 2 [3 / 4, 3 / 10, 1 / 4, 9 / 10])) \<noteq>
   ''21'' @ [tab] @ ''19'' @ [tab] @ ''19'' @ [newline]"
proof -
  have "print_dataset 0 3 1
     (fst (mutate draws_ran1 20 [1] 1 [''10'', ''01'', ''11''] 2 [3 / 4, 3 / 10, 1 / 4, 9 / 10])) \<noteq>
   ''21'' @ [tab] @ ''19'' @ [tab] @ ''19'' @ [newline]"
    by (simp add: mutate_draws numeral_2_eq_2 add_step_def hap_is_one_def
        init_nrep_def numeral_3_eq_3 draw_def skip_draws_def
        print_dataset_def print_flat_def print_d_def digits.simps upt_rec)
  moreover have "main example_env [''microsat'', ''-a'', ''20'']
     (''ms 3 1'' @ [newline] @ ''1 2 3'' @ [newline] @ [newline] @ ''//'' @ [newline]
      @ ''segsites: 2'' @ [newline] @ ''positions: 0.1 0.2'' @ [newline]
      @ ''10'' @ [newline] @ ''01'' @ [newline] @ ''11'' @ [newline])
     [3 / 4, 3 / 10, 1 / 4, 9 / 10] =
   Return0 (''21'' @ [tab] @ ''19'' @ [tab] @ ''20'' @ [newline])"
    by code_simp
  ultimately show ?thesis by simp
qed

subsection \<open>Capacities of the haplotype buffers\<close>

lemma grow_list [simp]: "list (grow s st) = list st"
  by (simp add: grow_def)

lemma store_token_length: "length tok + 1 \<le> length buf \<Longrightarrow> length (store_token buf tok) = length buf"
  by (simp add: store_token_def)

lemma read_haps_lengths:
  "read_haps bufs r = Some (bufs', r') \<Longrightarrow> map length bufs' = map length bufs"
proof (induction bufs arbitrary: r bufs' r')
  case Nil
  then show ?case by simp
next
  case (Cons buf bufs)
  then show ?case
    by (auto simp: store_token_length split: prod.splits option.splits if_splits)
qed

lemma read_sample_lengths:
  "read_sample lf segs st = Inr st' \<Longrightarrow> map length (list st') = map length (list st)"
  by (auto simp: read_sample_def read_astr_def skip_annotation_def
      split: if_splits sum.splits prod.splits option.splits dest: read_haps_lengths)

lemma dataset_lengths:
  "dataset env cfg st = Inr st' \<Longrightarrow> map length (list st') = map length (list st)"
  by (auto simp: dataset_def split: if_splits sum.splits prod.splits option.splits
      dest!: read_sample_lengths)

lemma length_cmatrix: "map length (cmatrix fr n len) = replicate n len"
  by (simp add: cmatrix_def comp_def map_replicate_const)

text \<open>
  Claim C2 fails on the code. The growth step of lines 158--166 raises \<^verbatim>\<open>MAX_SITES\<close> to
  \<open>s + 10\<close> and reallocates \<^verbatim>\<open>posit\<close>, but leaves every haplotype buffer as it is: line 165
  repeats the prototype of \<^verbatim>\<open>biggerlist\<close> where a call was meant. For three individuals and
  a dataset of 1500 sites, \<^verbatim>\<open>MAX_SITES\<close> becomes 1510 while the three buffers keep the 1001
  bytes \<^verbatim>\<open>cmatrix\<close> gave them; the call \<^verbatim>\<open>biggerlist(nsam, MAX_SITES, list)\<close> would have
  made them 1510 bytes long.
\<close>

theorem buffers_keep_their_size:
  "list (grow s st) = list st
   \<and> MAX_SITES (grow 1500 \<lparr>inp = i, out = t, MAX_SITES = 1000, posit_size = 1000,
        list = cmatrix fr 3 1001, segsites = Some 1500, astr = a, gen = g\<rparr>) = 1510
   \<and> map length (list (grow 1500 \<lparr>inp = i, out = t, MAX_SITES = 1000, posit_size = 1000,
        list = cmatrix fr 3 1001, segsites = Some 1500, astr = a, gen = g\<rparr>)) = [1001, 1001, 1001]
   \<and> map length (list (biggerlist fr 3 1510 \<lparr>inp = i, out = t, MAX_SITES = 1000, posit_size = 1000,
        list = cmatrix fr 3 1001, segsites = Some 1500, astr = a, gen = g\<rparr>)) = [1510, 1510, 1510]"
  by (simp add: grow_def length_cmatrix biggerlist_def realloc_def numeral_3_eq_3 cmatrix_def)

subsection \<open>The search for the dataset boundary\<close>

lemma fgets_chars_concat: "fst (fgets_chars n s) @ snd (fgets_chars n s) = s"
  by (induction n s rule: fgets_chars.induct) (auto split: prod.splits)

lemma fgets_concat: "fgets n s = Some (line, r) \<Longrightarrow> line @ r = s"
  using fgets_chars_concat [of "n - 1" s]
  by (auto simp: fgets_def split: if_splits)

lemma fgets_all_concat: "concat (fgets_all s) = s"
proof (induction s rule: fgets_all.induct)
  case (1 s)
  show ?case
  proof (cases "fgets MAX_LINE_LENGTH s")
    case None
    then show ?thesis
      by (subst fgets_all.simps) (simp add: fgets_def split: if_splits)
  next
    case (Some p)
    obtain line r where p: "p = (line, r)" by (cases p)
    from "1.IH" [OF Some p [symmetric]] fgets_concat [of MAX_LINE_LENGTH s line r] Some p
    show ?thesis by (subst fgets_all.simps) simp
  qed
qed

lemma find_boundary_chunks:
  "find_boundary s =
     (case dropWhile (\<lambda>l. hd l \<noteq> CHR ''/'') (fgets_all s) of
        [] \<Rightarrow> None
      | l # ls \<Rightarrow> Some (concat ls))"
proof (induction s rule: find_boundary.induct)
  case (1 s)
  show ?case
  proof (cases "fgets MAX_LINE_LENGTH s")
    case None
    then show ?thesis
      by (subst find_boundary.simps, subst fgets_all.simps) simp
  next
    case (Some p)
    obtain line r where p: "p = (line, r)" by (cases p)
    show ?thesis
    proof (cases "hd line \<noteq> CHR ''/''")
      case True
      from "1.IH" [OF Some p [symmetric] True] Some p True show ?thesis
        by (subst find_boundary.simps, subst fgets_all.simps) simp
    next
      case False
      with Some p show ?thesis
        by (subst find_boundary.simps, subst fgets_all.simps) (simp add: fgets_all_concat)
    qed
  qed
qed

lemma dataset_no_boundary:
  "find_boundary (inp st) = None \<Longrightarrow> dataset env cfg st = Inl (Exit1 Line_retrieval_fault (out st))"
  by (simp add: dataset_def)

lemma run_no_boundary:
  "count < 2147483647 \<Longrightarrow> ms \<noteq> count \<Longrightarrow> find_boundary (inp st) = None \<Longrightarrow>
   run env cfg ms count st = Exit1 Line_retrieval_fault (out st)"
  by (subst run.simps) (simp add: dataset_no_boundary)

text \<open>
  Claim C9, as amended. At the start of a dataset the lines of the stream, as \<^verbatim>\<open>fgets\<close>
  delivers them, are skipped up to and including the first that begins with the character
  \<^verbatim>\<open>/\<close>; reading goes on after that line. When the stream ends before such a line, the
  dataset ends the run with the diagnostic of line 149 and status 1, and the output is what
  the earlier datasets wrote: the dataset in progress adds nothing.
\<close>

theorem boundary_search:
  "find_boundary s =
     (case dropWhile (\<lambda>l. hd l \<noteq> CHR ''/'') (fgets_all s) of
        [] \<Rightarrow> None
      | l # ls \<Rightarrow> Some (concat ls))
   \<and> (find_boundary (inp st) = None
        \<longrightarrow> dataset env cfg st = Inl (Exit1 Line_retrieval_fault (out st)))
   \<and> (count < 2147483647 \<and> ms \<noteq> count \<and> find_boundary (inp st) = None
        \<longrightarrow> run env cfg ms count st = Exit1 Line_retrieval_fault (out st))"
  using find_boundary_chunks [of s] dataset_no_boundary [of st env cfg]
    run_no_boundary [of count ms st env cfg]
  by simp

theorem boundary_search_witness:
  "find_boundary (''abc'' @ [newline] @ ''segsites: 1'' @ [newline]) = None
   \<and> dataset example_env init_config
        \<lparr>inp = ''abc'' @ [newline] @ ''segsites: 1'' @ [newline], out = ''21'' @ [newline],
         MAX_SITES = 1000, posit_size = 1000, list = [''1''], segsites = Some 1,
         astr = None, gen = []\<rparr> = Inl (Exit1 Line_retrieval_fault (''21'' @ [newline]))
   \<and> run example_env init_config 2 1
        \<lparr>inp = ''abc'' @ [newline] @ ''segsites: 1'' @ [newline], out = ''21'' @ [newline],
         MAX_SITES = 1000, posit_size = 1000, list = [''1''], segsites = Some 1,
         astr = None, gen = []\<rparr> = Exit1 Line_retrieval_fault (''21'' @ [newline])"
proof -
  have n: "find_boundary (''abc'' @ [newline] @ ''segsites: 1'' @ [newline]) = None"
    by code_simp
  note t = boundary_search [of _ "\<lparr>inp = ''abc'' @ [newline] @ ''segsites: 1'' @ [newline],
         out = ''21'' @ [newline], MAX_SITES = 1000, posit_size = 1000, list = [''1''],
         segsites = Some 1, astr = None, gen = []\<rparr>" example_env init_config 1 2]
  from t [THEN conjunct2, THEN conjunct1] t [THEN conjunct2, THEN conjunct2] n
  show ?thesis by simp
qed

text \<open>
  The claim as stated asks for a line that begins with \<^verbatim>\<open>//\<close>. In the stream below no line
  does, and yet the run does not stop at the search: the line \<^verbatim>\<open>/x\<close> is taken for the
  boundary, and the dataset after it is processed and printed.
\<close>

theorem single_slash_counterexample:
  "fgets_all (''ms 1 1'' @ [newline] @ [newline] @ ''/x'' @ [newline] @ ''segsites: 0'' @ [newline]) =
     [''ms 1 1'' @ [newline], [newline], ''/x'' @ [newline], ''segsites: 0'' @ [newline]]
   \<and> main example_env [''microsat'']
       (''ms 1 1'' @ [newline] @ [newline] @ ''/x'' @ [newline] @ ''segsites: 0'' @ [newline]) [] =
     Return0 (''0'' @ [newline])"
  by code_simp

subsection \<open>The command line\<close>

lemma store_all_length [simp]: "length (store_all af j ts th) = length th"
  by (induction ts arbitrary: j th) simp_all




lemma thetas_loop_length:
  "thetas_loop af argv j k c = Inr (k', c') \<Longrightarrow> length (thetas c') = length (thetas c)"
proof (induction af argv j k c rule: thetas_loop.induct)
  case (1 af argv j k c)
  show ?case
  proof (cases "j < linked_n c")
    case True
    with "1.prems" obtain a where a: "argv_at argv (k + 1) = Some a"
      by (subst (asm) thetas_loop.simps) (auto split: option.splits)
    with True "1.prems" have "thetas_loop af argv (j + 1) (k + 1)
          (c\<lparr>thetas := (thetas c)[nat j := af a], theta_sum := theta_sum c + af a\<rparr>) = Inr (k', c')"
      by (subst (asm) thetas_loop.simps) simp
    from "1.IH" [OF True a this] show ?thesis by simp
  next
    case False
    with "1.prems" show ?thesis by (subst (asm) thetas_loop.simps) simp
  qed
qed

lemma option_l_length:
  "option_l ai af argv k c = Inr (k', c') \<Longrightarrow> length (thetas c') = length (thetas c)"
  by (auto simp: option_l_def Let_def split: option.splits if_splits sum.splits
      dest!: thetas_loop_length)

lemma args_loop_length:
  "args_loop ai af argv k c = Inr c' \<Longrightarrow> length (thetas c') = length (thetas c)"
proof (induction ai af argv k c rule: args_loop.induct)
  case (1 ai af argv k c)
  note prem = "1.prems" [unfolded args_loop.simps [of ai af argv k c]]
  show ?case
    using prem "1.IH"
    by (auto simp: Let_def split: if_splits option.splits sum.splits prod.splits
        dest: option_l_length)
qed

lemma configure_length:
  "configure ai af argv = Inr cfg \<Longrightarrow> length (thetas cfg) = MAX_STRS"
  by (auto simp: configure_def init_config_def split: sum.splits if_splits
      dest!: args_loop_length)




text \<open>
  Claim C5. When the configured number of loci is 1, the theta proportions are \<open>[1.0]\<close>
  (line 131), and the locus search returns locus 0 whatever the locus draw.
\<close>

theorem single_locus_default:
  assumes "configure ai af argv = Inr cfg" and "linked_n cfg = 1"
  shows "take (nat (linked_n cfg)) (thetas cfg) = [1]
       \<and> str_loop r (thetas cfg) (nat (linked_n cfg)) 0 0 = 0"
proof -
  have len: "length (thetas cfg) = MAX_STRS"
    using assms(1) by (rule configure_length)
  from assms obtain c where c: "cfg = c\<lparr>thetas := (thetas c)[0 := 1]\<rparr>"
    by (auto simp: configure_def split: sum.splits if_splits)
  have "thetas cfg ! 0 = 1"
    using len by (subst c, subst (asm) c) (simp add: MAX_STRS_def)
  with len have "take 1 (thetas cfg) = [1]"
    by (cases "thetas cfg") (simp_all add: MAX_STRS_def)
  with assms(2) show ?thesis by simp
qed

theorem single_locus_default_witness:
  "configure decimal_atoi decimal_atof [''microsat'', ''-a'', ''20''] =
     Inr (init_config\<lparr>ancstate := 20, thetas := (replicate MAX_STRS 0)[0 := 1]\<rparr>)
   \<and> str_loop (999 / 1000)
       (thetas (init_config\<lparr>ancstate := 20, thetas := (replicate MAX_STRS 0)[0 := 1]\<rparr>))
       (nat (linked_n (init_config\<lparr>ancstate := 20, thetas := (replicate MAX_STRS 0)[0 := 1]\<rparr>))) 0 0 = 0"
proof -
  have c: "configure decimal_atoi decimal_atof [''microsat'', ''-a'', ''20''] =
     Inr (init_config\<lparr>ancstate := 20, thetas := (replicate MAX_STRS 0)[0 := 1]\<rparr>)"
    by code_simp
  have l: "linked_n (init_config\<lparr>ancstate := 20, thetas := (replicate MAX_STRS 0)[0 := 1]\<rparr>) = 1"
    by (simp add: init_config_def)
  from single_locus_default [OF c l, of "999 / 1000"] c show ?thesis by simp
qed



end
